theory Spec2Isabelle
  imports Main "HOL-Library.AList" "HOL-Library.Sublist"
begin

section \<open>Strings and case folding\<close>

text \<open>
  Names, queries and field values are Python \<open>str\<close> values. They are modelled as
  \<open>string\<close> over the ASCII alphabet, where \<open>str.lower\<close> maps the letters
  \<open>A\<close> .. \<open>Z\<close> (codes 65 .. 90) to \<open>a\<close> .. \<open>z\<close> character by character
  and leaves every other character alone.
\<close>

definition lower_char :: "char \<Rightarrow> char" where
  "lower_char c =
     (let n = (of_char c :: nat)
      in if 65 \<le> n \<and> n \<le> 90 then char_of (n + 32) else c)"

definition lower :: "string \<Rightarrow> string" where
  "lower s = map lower_char s"

section \<open>The prefix index\<close>

text \<open>
  \<open>class TrieNode\<close>: \<open>children\<close> is a Python dict from a character to a child
  node, \<open>is_end_of_word\<close> a flag. A Python dict iterates in the order its keys were
  first stored, so \<open>children\<close> is an association list in that order: a lookup is
  \<open>map_of\<close>, and a store \<open>d[k] = v\<close> is \<open>AList.update\<close>, which replaces the value
  in place when the key is present and appends the pair otherwise.
\<close>

datatype trie_node = TrieNode (children: "(char \<times> trie_node) list") (is_end_of_word: bool)

text \<open>\<open>class Trie\<close> has the single field \<open>root\<close>; a trie is identified with its root.\<close>

type_synonym trie = trie_node

definition Trie_init :: trie where
  "Trie_init = TrieNode [] False"

text \<open>
  The loop of \<open>Trie.insert\<close> over the characters of \<open>word.lower()\<close>: a missing child
  is created as a fresh node, the walk continues in the child, and the node reached at
  the end of the word is marked.
\<close>

fun insert_chars :: "string \<Rightarrow> trie_node \<Rightarrow> trie_node" where
  "insert_chars [] (TrieNode cs e) = TrieNode cs True"
| "insert_chars (c # w) (TrieNode cs e) =
     TrieNode
       (AList.update c
          (insert_chars w (case map_of cs c of None \<Rightarrow> TrieNode [] False | Some child \<Rightarrow> child))
          cs)
       e"

definition insert_trie :: "trie \<Rightarrow> string \<Rightarrow> trie" where
  "insert_trie t word = insert_chars (lower word) t"

text \<open>
  The loop of \<open>Trie.search\<close> over the characters of \<open>prefix.lower()\<close>: \<open>None\<close> is
  the early \<open>return []\<close> at a character without a child.
\<close>

fun descend :: "string \<Rightarrow> trie_node \<Rightarrow> trie_node option" where
  "descend [] node = Some node"
| "descend (c # w) (TrieNode cs e) =
     (case map_of cs c of None \<Rightarrow> None | Some child \<Rightarrow> descend w child)"

fun collect_all_words :: "trie_node \<Rightarrow> string \<Rightarrow> string list" where
  "collect_all_words (TrieNode cs e) pfx =
     (if e then [pfx] else []) @
     concat (map (\<lambda>(char, child_node). collect_all_words child_node (pfx @ [char])) cs)"

text \<open>
  \<open>Trie.search\<close> walks down with the lowercased prefix and then collects from the node
  reached with the prefix as it was passed in.
\<close>

definition search :: "trie \<Rightarrow> string \<Rightarrow> string list" where
  "search t pfx =
     (case descend (lower pfx) t of
        None \<Rightarrow> []
      | Some node \<Rightarrow> collect_all_words node pfx)"

text \<open>The trie after a history of insertions into a fresh \<open>Trie()\<close>.\<close>

definition trie_of :: "string list \<Rightarrow> trie" where
  "trie_of names = foldl insert_trie Trie_init names"


section \<open>Input validation\<close>

definition is_digit :: "char \<Rightarrow> bool" where
  "is_digit c = (let n = (of_char c :: nat) in 48 \<le> n \<and> n \<le> 57)"

definition is_alnum :: "char \<Rightarrow> bool" where
  "is_alnum c =
     (let n = (of_char c :: nat)
      in (97 \<le> n \<and> n \<le> 122) \<or> (65 \<le> n \<and> n \<le> 90) \<or> (48 \<le> n \<and> n \<le> 57))"

text \<open>\<open>str.isdigit\<close>: at least one character, and every character a digit.\<close>

definition isdigit :: "string \<Rightarrow> bool" where
  "isdigit s = (s \<noteq> [] \<and> list_all is_digit s)"

definition validate_phone :: "string \<Rightarrow> bool" where
  "validate_phone phone_number = (isdigit phone_number \<and> length phone_number \<ge> 10)"

text \<open>
  The regular expressions that \<open>validate_email\<close> needs, matched by derivatives.
  \<open>Cls p\<close> is one character of the class \<open>p\<close>.
\<close>

datatype regex =
    NoMatch
  | EmptyStr
  | Cls "char \<Rightarrow> bool"
  | Seq regex regex
  | Alt regex regex
  | Star regex

fun nullable :: "regex \<Rightarrow> bool" where
  "nullable NoMatch = False"
| "nullable EmptyStr = True"
| "nullable (Cls p) = False"
| "nullable (Seq r1 r2) = (nullable r1 \<and> nullable r2)"
| "nullable (Alt r1 r2) = (nullable r1 \<or> nullable r2)"
| "nullable (Star r) = True"

fun deriv :: "char \<Rightarrow> regex \<Rightarrow> regex" where
  "deriv c NoMatch = NoMatch"
| "deriv c EmptyStr = NoMatch"
| "deriv c (Cls p) = (if p c then EmptyStr else NoMatch)"
| "deriv c (Seq r1 r2) =
     (if nullable r1 then Alt (Seq (deriv c r1) r2) (deriv c r2) else Seq (deriv c r1) r2)"
| "deriv c (Alt r1 r2) = Alt (deriv c r1) (deriv c r2)"
| "deriv c (Star r) = Seq (deriv c r) (Star r)"

definition matches :: "regex \<Rightarrow> string \<Rightarrow> bool" where
  "matches r s = nullable (foldl (\<lambda>r' c. deriv c r') r s)"

definition OneOrMore :: "regex \<Rightarrow> regex" where
  "OneOrMore r = Seq r (Star r)"

text \<open>
  \<open>email_regex = r'^[a-zA-Z0-9_.+-]+@[a-zA-Z0-9-]+\.[a-zA-Z0-9-.]+$'\<close>, applied with
  \<open>re.match\<close>. The pattern is anchored at both ends, so the whole string has to
  match it; Python's \<open>$\<close> also matches just before a newline that ends the string,
  which is the optional last character here.
\<close>

definition email_regex :: regex where
  "email_regex =
     Seq (OneOrMore (Cls (\<lambda>c. is_alnum c \<or> c = CHR ''_'' \<or> c = CHR ''.'' \<or> c = CHR ''+'' \<or> c = CHR ''-'')))
    (Seq (Cls (\<lambda>c. c = CHR ''@''))
    (Seq (OneOrMore (Cls (\<lambda>c. is_alnum c \<or> c = CHR ''-'')))
    (Seq (Cls (\<lambda>c. c = CHR ''.''))
    (Seq (OneOrMore (Cls (\<lambda>c. is_alnum c \<or> c = CHR ''-'' \<or> c = CHR ''.'')))
         (Alt EmptyStr (Cls (\<lambda>c. c = CHR 0x0A)))))))"

definition validate_email :: "string \<Rightarrow> bool" where
  "validate_email email_address = matches email_regex email_address"

section \<open>The service state and its handlers\<close>

text \<open>
  A stored contact is the dict that \<open>add_contact\<close> builds; its five keys are the
  fields of a record. Field values have the types of the data model: strings, and a
  boolean for \<open>favorite\<close>.
\<close>

record contact =
  phone :: string
  email :: string
  address :: string
  group_c :: string
  favorite :: bool

text \<open>
  The module-level state: the dicts \<open>contacts\<close>, \<open>call_log\<close> (a
  \<open>defaultdict(list)\<close>) and \<open>relationships\<close> (a \<open>defaultdict(set)\<close>), the
  \<open>trie\<close>, and the contents of the two files that \<open>save_data\<close> writes.
\<close>

record app_state =
  contacts :: "string \<rightharpoonup> contact"
  call_log :: "string \<rightharpoonup> string list"
  relationships :: "string \<rightharpoonup> string set"
  trie :: trie
  contacts_json :: "string \<rightharpoonup> contact"
  call_log_json :: "string \<rightharpoonup> string list"

definition save_data :: "app_state \<Rightarrow> app_state" where
  "save_data s = s\<lparr>contacts_json := contacts s, call_log_json := call_log s\<rparr>"

text \<open>
  A handler returns the new state and the pair of the JSON body and the status code.
  A list built from a set (\<open>list(neighbors)\<close>) has no specified order and stays a set.
\<close>

datatype body =
    Error string
  | Message string
  | Contacts "string \<rightharpoonup> contact"
  | Graph "string \<rightharpoonup> string set"
  | CallLog "string \<rightharpoonup> string list"

type_synonym response = "body \<times> nat"

text \<open>
  Truth value of an optional string, as in \<open>if phone:\<close>: \<open>None\<close> (the key is absent
  from the JSON body, or null) and the empty string are false.
\<close>

definition truthy :: "string option \<Rightarrow> bool" where
  "truthy v = (case v of None \<Rightarrow> False | Some x \<Rightarrow> x \<noteq> [])"

text \<open>
  The JSON body of \<open>POST /contacts\<close>: \<open>name\<close> and \<open>phone\<close> as \<open>data.get\<close> returns
  them, the other fields after their defaults (\<open>''\<close> and \<open>False\<close>).
\<close>

record add_data =
  add_name :: "string option"
  add_phone :: "string option"
  add_email :: string
  add_address :: string
  add_group :: string
  add_favorite :: bool

definition add_contact :: "add_data \<Rightarrow> app_state \<Rightarrow> app_state \<times> response" where
  "add_contact data s =
     (if \<not> truthy (add_name data) \<or> \<not> truthy (add_phone data)
      then (s, (Error ''Name and phone number are required'', 400))
      else if \<not> validate_phone (the (add_phone data))
      then (s, (Error ''Invalid phone number format'', 400))
      else if add_email data \<noteq> [] \<and> \<not> validate_email (add_email data)
      then (s, (Error ''Invalid email format'', 400))
      else
        (save_data
           (s\<lparr>contacts := (contacts s)(lower (the (add_name data)) \<mapsto>
                   \<lparr>phone = the (add_phone data), email = add_email data,
                    address = add_address data, group_c = add_group data,
                    favorite = add_favorite data\<rparr>),
              trie := insert_trie (trie s) (the (add_name data))\<rparr>),
         (Message ''Contact added successfully'', 201)))"

text \<open>
  The JSON body of \<open>PUT /contacts/<name>\<close>: each field as \<open>data.get\<close> returns it,
  \<open>None\<close> when the key is absent or null.
\<close>

record update_data =
  upd_phone :: "string option"
  upd_email :: "string option"
  upd_address :: "string option"
  upd_group :: "string option"
  upd_favorite :: "bool option"

definition update_contact :: "string \<Rightarrow> update_data \<Rightarrow> app_state \<Rightarrow> app_state \<times> response" where
  "update_contact name data s =
     (let key = lower name in
      case contacts s key of
        None \<Rightarrow> (s, (Error ''Contact not found'', 404))
      | Some contact0 \<Rightarrow>
          if truthy (upd_phone data) \<and> \<not> validate_phone (the (upd_phone data))
          then (s, (Error ''Invalid phone number format'', 400))
          else if truthy (upd_email data) \<and> \<not> validate_email (the (upd_email data))
          then (s, (Error ''Invalid email format'', 400))
          else
            let contact1 = (if truthy (upd_phone data)
                            then contact0\<lparr>phone := the (upd_phone data)\<rparr> else contact0);
                contact2 = (if truthy (upd_email data)
                            then contact1\<lparr>email := the (upd_email data)\<rparr> else contact1);
                contact3 = (if truthy (upd_address data)
                            then contact2\<lparr>address := the (upd_address data)\<rparr> else contact2);
                contact4 = (if truthy (upd_group data)
                            then contact3\<lparr>group_c := the (upd_group data)\<rparr> else contact3);
                contact5 = (case upd_favorite data of
                              None \<Rightarrow> contact4
                            | Some fav \<Rightarrow> contact4\<lparr>favorite := fav\<rparr>)
            in (save_data (s\<lparr>contacts := (contacts s)(key \<mapsto> contact5)\<rparr>),
                (Message ''Contact updated successfully'', 200)))"

definition delete_contact :: "string \<Rightarrow> app_state \<Rightarrow> app_state \<times> response" where
  "delete_contact name s =
     (let key = lower name in
      if key \<in> dom (contacts s)
      then (save_data (s\<lparr>contacts := (contacts s)(key := None)\<rparr>),
            (Message ''Contact deleted successfully'', 200))
      else (s, (Error ''Contact not found'', 404)))"

text \<open>
  The dict comprehension of \<open>search_contact\<close>, filled in the order of \<open>results\<close>:
  \<open>{name: contacts[name.lower()] for name in results if name.lower() in contacts}\<close>.
\<close>

definition result_contacts :: "(string \<rightharpoonup> contact) \<Rightarrow> string list \<Rightarrow> (string \<rightharpoonup> contact)" where
  "result_contacts cts results =
     foldl (\<lambda>d name. case cts (lower name) of None \<Rightarrow> d | Some c \<Rightarrow> d(name \<mapsto> c))
       Map.empty results"

text \<open>\<open>query\<close> is the optional request argument, \<open>''\<close> when it is absent.\<close>

definition search_contact :: "string option \<Rightarrow> app_state \<Rightarrow> response" where
  "search_contact query_arg s =
     (let query = lower (case query_arg of None \<Rightarrow> [] | Some q \<Rightarrow> q);
          results = search (trie s) query
      in (Contacts (result_contacts (contacts s) results), 200))"

text \<open>
  \<open>relationships[key].add(v)\<close> on a \<open>defaultdict(set)\<close>: a missing key starts from the
  empty set.
\<close>

definition neighbors :: "(string \<rightharpoonup> string set) \<Rightarrow> string \<Rightarrow> string set" where
  "neighbors rel k = (case rel k of None \<Rightarrow> {} | Some ns \<Rightarrow> ns)"

definition add_neighbor :: "string \<Rightarrow> string \<Rightarrow> (string \<rightharpoonup> string set) \<Rightarrow> (string \<rightharpoonup> string set)" where
  "add_neighbor k v rel = rel(k \<mapsto> Set.insert v (neighbors rel k))"

definition add_relationship :: "string \<Rightarrow> string \<Rightarrow> app_state \<Rightarrow> app_state \<times> response" where
  "add_relationship name1 name2 s =
     (let key1 = lower name1; key2 = lower name2 in
      if key1 \<notin> dom (contacts s) \<or> key2 \<notin> dom (contacts s)
      then (s, (Error ''One or both contacts not found'', 404))
      else
        (save_data
           (s\<lparr>relationships := add_neighbor key2 key1 (add_neighbor key1 key2 (relationships s))\<rparr>),
         (Message (''Relationship added between '' @ name1 @ '' and '' @ name2), 200)))"

definition get_graph :: "app_state \<Rightarrow> response" where
  "get_graph s = (Graph (relationships s), 200)"

text \<open>\<open>now\<close> is the formatted time stamp that \<open>datetime.now()\<close> yields at the call.\<close>

definition log_call :: "string \<Rightarrow> string \<Rightarrow> app_state \<Rightarrow> app_state \<times> response" where
  "log_call name now s =
     (let key = lower name in
      if key \<notin> dom (contacts s)
      then (s, (Error ''Contact not found'', 404))
      else
        (save_data
           (s\<lparr>call_log := (call_log s)(key \<mapsto>
                   (case call_log s key of None \<Rightarrow> [] | Some ts \<Rightarrow> ts) @ [now])\<rparr>),
         (Message (''Call logged for '' @ name), 200)))"

definition get_call_log :: "app_state \<Rightarrow> response" where
  "get_call_log s = (CallLog (call_log s), 200)"

text \<open>The state of a process started without saved files.\<close>

definition init_state :: app_state where
  "init_state =
     \<lparr>contacts = Map.empty, call_log = Map.empty, relationships = Map.empty,
      trie = Trie_init, contacts_json = Map.empty, call_log_json = Map.empty\<rparr>"

text \<open>The relationship graph is symmetric when every edge has its reverse.\<close>

definition symmetric_graph :: "(string \<rightharpoonup> string set) \<Rightarrow> bool" where
  "symmetric_graph rel = (\<forall>a b. b \<in> neighbors rel a \<longrightarrow> a \<in> neighbors rel b)"


section \<open>Result order as a function of the insertion history\<close>

text \<open>
  The order that the specification describes, written over the list of inserted words
  instead of over the trie. \<open>first_occ\<close> keeps the first occurrence of every element:
  applied to the first characters of the words, it is the order in which the child
  nodes of a node come into being. \<open>tails c\<close> are the words below the child for \<open>c\<close>.
\<close>

definition first_occ :: "'a list \<Rightarrow> 'a list" where
  "first_occ xs = rev (remdups (rev xs))"

definition heads :: "string list \<Rightarrow> char list" where
  "heads ws = map hd (filter (\<lambda>w. w \<noteq> []) ws)"

definition tails :: "char \<Rightarrow> string list \<Rightarrow> string list" where
  "tails c ws = map tl (filter (\<lambda>w. w \<noteq> [] \<and> hd w = c) ws)"

text \<open>
  Pre-order: the word that ends at the current node first, then the words below each
  child, the children taken in the order of their creation.
\<close>

function preorder_words :: "string list \<Rightarrow> string list" where
  "preorder_words ws =
     (if [] \<in> set ws then [[]] else []) @
     concat (map (\<lambda>c. map ((#) c) (preorder_words (tails c ws))) (first_occ (heads ws)))"
  by pat_completeness auto
termination
proof (relation "measure (\<lambda>ws. sum_list (map length ws))")
  show "wf (measure (\<lambda>ws :: string list. sum_list (map length ws)))"
    by simp
next
  fix ws :: "string list" and c :: char
  assume "c \<in> set (first_occ (heads ws))"
  then have c: "c \<in> set (heads ws)"
    by (simp add: first_occ_def)
  have le: "sum_list (map length (tails c vs)) \<le> sum_list (map length vs)" for vs
    by (induction vs) (auto simp: tails_def)
  have "c \<in> set (heads vs) \<Longrightarrow>
        sum_list (map length (tails c vs)) < sum_list (map length vs)" for vs
  proof (induction vs)
    case Nil
    then show ?case by (simp add: heads_def)
  next
    case (Cons v vs)
    show ?case
    proof (cases "v \<noteq> [] \<and> hd v = c")
      case True
      then have "sum_list (map length (tails c (v # vs))) =
                 length (tl v) + sum_list (map length (tails c vs))"
        by (simp add: tails_def)
      moreover have "length (tl v) < length v" using True by simp
      ultimately show ?thesis using le [of vs] by simp
    next
      case False
      with Cons.prems have "c \<in> set (heads vs)"
        by (auto simp: heads_def split: if_splits)
      from Cons.IH [OF this] False show ?thesis by (auto simp: tails_def)
    qed
  qed
  from this [OF c] show "(tails c ws, ws) \<in> measure (\<lambda>ws. sum_list (map length ws))"
    by simp
qed

declare preorder_words.simps [simp del]

text \<open>The lowercased words that start with \<open>q\<close>, each without that prefix.\<close>

definition suffixes_after :: "string \<Rightarrow> string list \<Rightarrow> string list" where
  "suffixes_after q ws = map (drop (length q)) (filter (prefix q) ws)"

text \<open>The trie after the words \<open>ws\<close>, already lowercased, went through the insertion loop.\<close>

definition history_trie :: "string list \<Rightarrow> trie_node" where
  "history_trie ws = foldl (\<lambda>t w. insert_chars w t) (TrieNode [] False) ws"


section \<open>A scenario\<close>

text \<open>
  The scenario of the specification: contact \<open>Alice\<close> with phone \<open>1234567890\<close> is
  added to a fresh service; then \<open>Bob\<close> is added, the two are related, and a call to
  \<open>Alice\<close> is logged.
\<close>

definition alice_data :: add_data where
  "alice_data =
     \<lparr>add_name = Some ''Alice'', add_phone = Some ''1234567890'', add_email = [],
      add_address = [], add_group = [], add_favorite = True\<rparr>"

definition bob_data :: add_data where
  "bob_data =
     \<lparr>add_name = Some ''Bob'', add_phone = Some ''5550001111'', add_email = ''bob@example.com'',
      add_address = [], add_group = [], add_favorite = False\<rparr>"

definition alice_state :: app_state where
  "alice_state = fst (add_contact alice_data init_state)"

definition alice_bob_state :: app_state where
  "alice_bob_state =
     fst (log_call ''Alice'' ''2024-01-01 10:00:00''
       (fst (add_relationship ''Alice'' ''Bob''
         (fst (add_contact bob_data alice_state)))))"

section \<open>Case folding\<close>

lemma lower_char_idem: "lower_char (lower_char c) = lower_char c"
  by (simp add: lower_char_def Let_def)

lemma lower_idem: "lower (lower s) = lower s"
  by (simp add: lower_def lower_char_idem)

section \<open>The trie of an insertion history\<close>

lemma trie_of_history: "trie_of names = history_trie (map lower names)"
proof -
  have "insert_trie = (\<lambda>t w. insert_chars (lower w) t)"
    by (intro ext) (simp add: insert_trie_def)
  then show ?thesis
    by (simp add: trie_of_def history_trie_def Trie_init_def foldl_map)
qed

lemma first_occ_snoc:
  "first_occ (xs @ [x]) = (if x \<in> set xs then first_occ xs else first_occ xs @ [x])"
  by (simp add: first_occ_def)

lemma distinct_first_occ: "distinct (first_occ xs)"
  by (simp add: first_occ_def)

lemma set_first_occ: "set (first_occ xs) = set xs"
  by (simp add: first_occ_def)

lemma update_keyed:
  "distinct ks \<Longrightarrow>
   AList.update c v (map (\<lambda>k. (k, f k)) ks) =
   map (\<lambda>k. (k, (f(c := v)) k)) (if c \<in> set ks then ks else ks @ [c])"
  by (induction ks) auto

lemma map_of_keyed:
  "map_of (map (\<lambda>k. (k, f k)) ks) c = (if c \<in> set ks then Some (f c) else None)"
  by (induction ks) auto

lemma in_tails: "v \<in> set (tails c ws) \<longleftrightarrow> c # v \<in> set ws"
proof
  assume "v \<in> set (tails c ws)"
  then obtain w where "w \<in> set ws" "w \<noteq> []" "hd w = c" "v = tl w"
    by (auto simp: tails_def)
  then show "c # v \<in> set ws" by (metis list.collapse)
next
  assume "c # v \<in> set ws"
  then have "c # v \<in> set (filter (\<lambda>w. w \<noteq> [] \<and> hd w = c) ws)" by simp
  then have "tl (c # v) \<in> set (tails c ws)" unfolding tails_def set_map by (rule imageI)
  then show "v \<in> set (tails c ws)" by simp
qed

lemma in_heads: "c \<in> set (heads ws) \<longleftrightarrow> (\<exists>v. c # v \<in> set ws)"
proof
  assume "c \<in> set (heads ws)"
  then obtain w where "w \<in> set ws" "w \<noteq> []" "hd w = c"
    by (auto simp: heads_def)
  then show "\<exists>v. c # v \<in> set ws" by (metis list.collapse)
next
  assume "\<exists>v. c # v \<in> set ws"
  then obtain v where "c # v \<in> set ws" ..
  then have "c # v \<in> set (filter (\<lambda>w. w \<noteq> []) ws)" by simp
  then have "hd (c # v) \<in> set (heads ws)" unfolding heads_def set_map by (rule imageI)
  then show "c \<in> set (heads ws)" by simp
qed

lemma tails_empty: "c \<notin> set (heads ws) \<Longrightarrow> tails c ws = []"
  by (auto simp: heads_def tails_def filter_empty_conv)

text \<open>
  One level of the trie of a history: a child for every first character, in the order
  of first occurrence, each child the trie of the words that went through it.
\<close>

lemma history_trie_unfold:
  "history_trie ws =
   TrieNode (map (\<lambda>c. (c, history_trie (tails c ws))) (first_occ (heads ws))) ([] \<in> set ws)"
proof (induction ws rule: rev_induct)
  case Nil
  show ?case by (simp add: history_trie_def heads_def first_occ_def)
next
  case (snoc w ws)
  let ?cs = "map (\<lambda>c. (c, history_trie (tails c ws))) (first_occ (heads ws))"
  have step: "history_trie (ws @ [w]) = insert_chars w (history_trie ws)"
    by (simp add: history_trie_def)
  show ?case
  proof (cases w)
    case Nil
    have "heads (ws @ [[]]) = heads ws" "\<And>c. tails c (ws @ [[]]) = tails c ws"
      by (simp_all add: heads_def tails_def)
    with Nil step snoc.IH show ?thesis
      by simp
  next
    case (Cons c v)
    have child: "(case map_of ?cs c of None \<Rightarrow> TrieNode [] False | Some child \<Rightarrow> child)
                 = history_trie (tails c ws)"
      by (simp add: map_of_keyed set_first_occ tails_empty history_trie_def)
    have grown: "insert_chars v (history_trie (tails c ws)) = history_trie (tails c (ws @ [w]))"
      using Cons by (simp add: history_trie_def tails_def)
    have other: "k \<noteq> c \<Longrightarrow> tails k (ws @ [w]) = tails k ws" for k
      using Cons by (simp add: tails_def)
    have hd_snoc: "heads (ws @ [w]) = heads ws @ [c]"
      using Cons by (simp add: heads_def)
    have "history_trie (ws @ [w]) =
          TrieNode (AList.update c (history_trie (tails c (ws @ [w]))) ?cs) ([] \<in> set ws)"
      unfolding step by (subst snoc.IH) (simp add: Cons child grown)
    also have "AList.update c (history_trie (tails c (ws @ [w]))) ?cs =
          map (\<lambda>k. (k, history_trie (tails k (ws @ [w])))) (first_occ (heads (ws @ [w])))"
      by (simp add: update_keyed distinct_first_occ set_first_occ hd_snoc first_occ_snoc other)
    finally show ?thesis using Cons by simp
  qed
qed

lemma collect_history:
  "collect_all_words (history_trie ws) p = map ((@) p) (preorder_words ws)"
proof (induction ws arbitrary: p rule: preorder_words.induct)
  case (1 ws)
  have kids: "concat (map (\<lambda>(char, child_node). collect_all_words child_node (p @ [char]))
                  (map (\<lambda>c. (c, history_trie (tails c ws))) (first_occ (heads ws))))
            = concat (map (\<lambda>c. map ((@) p) (map ((#) c) (preorder_words (tails c ws))))
                  (first_occ (heads ws)))"
    by (simp add: "1.IH" comp_def cong: map_cong)
  show ?case
    apply (subst history_trie_unfold)
    apply (subst preorder_words.simps)
    apply (simp only: collect_all_words.simps kids)
    apply (simp add: map_concat comp_def)
    done
qed

lemma map_append_Nil: "map ((@) []) xs = xs"
  by (induction xs) simp_all

lemma suffixes_after_Nil: "suffixes_after [] ws = ws"
  by (simp add: suffixes_after_def)

lemma prefix_Cons_hd: "prefix (c # q) w \<longleftrightarrow> w \<noteq> [] \<and> hd w = c \<and> prefix q (tl w)"
  by (cases w) auto

lemma suffixes_after_Cons: "suffixes_after (c # q) ws = suffixes_after q (tails c ws)"
  by (induction ws) (auto simp: suffixes_after_def tails_def prefix_Cons_hd drop_Suc)

lemma suffixes_after_none: "\<not> (\<exists>w \<in> set ws. prefix q w) \<Longrightarrow> suffixes_after q ws = []"
  by (auto simp: suffixes_after_def filter_empty_conv)

lemma descend_history:
  "descend q (history_trie ws) =
     (if q = [] \<or> (\<exists>w \<in> set ws. prefix q w) then Some (history_trie (suffixes_after q ws)) else None)"
proof (induction q arbitrary: ws)
  case Nil
  show ?case by (simp add: suffixes_after_Nil)
next
  case (Cons c q)
  have ex: "(\<exists>w \<in> set ws. prefix (c # q) w) \<longleftrightarrow> (\<exists>w \<in> set (tails c ws). prefix q w)"
    by (auto simp: tails_def prefix_Cons_hd)
  have none: "\<not> (\<exists>w \<in> set ws. prefix (c # q) w)" if "c \<notin> set (heads ws)"
    using that by (auto simp: heads_def prefix_Cons_hd)
  have some: "\<exists>w \<in> set ws. prefix [c] w" if "c \<in> set (heads ws)"
    using that by (auto simp: heads_def prefix_Cons_hd)
  show ?case
  proof (cases "c \<in> set (heads ws)")
    case False
    with none show ?thesis
      by (subst history_trie_unfold) (simp add: map_of_keyed set_first_occ)
  next
    case True
    then have "descend (c # q) (history_trie ws) = descend q (history_trie (tails c ws))"
      by (subst history_trie_unfold) (simp add: map_of_keyed set_first_occ)
    also have "\<dots> = (if q = [] \<or> (\<exists>w \<in> set (tails c ws). prefix q w)
                     then Some (history_trie (suffixes_after q (tails c ws))) else None)"
      by (rule Cons.IH)
    finally show ?thesis
      using some [OF True] ex by (auto simp: suffixes_after_Cons)
  qed
qed

lemma preorder_words_Nil: "preorder_words [] = []"
  by (subst preorder_words.simps) (simp add: heads_def first_occ_def)

text \<open>What \<open>Trie.search\<close> returns after any history of insertions.\<close>

lemma search_history:
  "search (trie_of names) p =
   map ((@) p) (preorder_words (suffixes_after (lower p) (map lower names)))"
proof (cases "lower p = [] \<or> (\<exists>w \<in> set (map lower names). prefix (lower p) w)")
  case True
  then show ?thesis
    by (simp add: search_def trie_of_history descend_history collect_history)
next
  case False
  then have "suffixes_after (lower p) (map lower names) = []"
    by (intro suffixes_after_none) simp
  with False show ?thesis
    by (simp add: search_def trie_of_history descend_history preorder_words_Nil)
qed

lemma set_preorder_words: "set (preorder_words ws) = set ws"
proof (induction ws rule: preorder_words.induct)
  case (1 ws)
  have IH: "set (preorder_words (tails c ws)) = set (tails c ws)" if "c \<in> set (heads ws)" for c
    using that by (intro "1.IH") (simp add: set_first_occ)
  show ?case
  proof (rule set_eqI)
    fix w
    have "w \<in> set (preorder_words ws) \<longleftrightarrow>
          (w = [] \<and> [] \<in> set ws) \<or>
          (\<exists>c \<in> set (heads ws). \<exists>v \<in> set (preorder_words (tails c ws)). w = c # v)"
      by (subst preorder_words.simps) (auto simp: set_first_occ)
    also have "\<dots> \<longleftrightarrow> (w = [] \<and> [] \<in> set ws) \<or>
          (\<exists>c \<in> set (heads ws). \<exists>v \<in> set (tails c ws). w = c # v)"
      using IH by auto
    also have "\<dots> \<longleftrightarrow> w \<in> set ws"
      by (cases w) (auto simp: in_tails in_heads)
    finally show "w \<in> set (preorder_words ws) \<longleftrightarrow> w \<in> set ws" .
  qed
qed

lemma distinct_preorder_words: "distinct (preorder_words ws)"
proof (induction ws rule: preorder_words.induct)
  case (1 ws)
  let ?f = "\<lambda>c. map ((#) c) (preorder_words (tails c ws))"
  have "distinct (concat (map ?f (first_occ (heads ws))))"
  proof (rule distinct_concat)
    have "inj_on ?f (set (first_occ (heads ws)))"
    proof (rule inj_onI)
      fix c d
      assume c: "c \<in> set (first_occ (heads ws))" and eq: "?f c = ?f d"
      from c obtain v where "v \<in> set (tails c ws)"
        by (auto simp: set_first_occ in_heads in_tails)
      then have "c # v \<in> set (?f c)" by (simp add: set_preorder_words)
      with eq have "c # v \<in> set (?f d)" by simp
      then show "c = d" by auto
    qed
    then show "distinct (map ?f (first_occ (heads ws)))"
      by (simp add: distinct_map distinct_first_occ)
  next
    fix ys assume "ys \<in> set (map ?f (first_occ (heads ws)))"
    then obtain c where "c \<in> set (first_occ (heads ws))" "ys = ?f c" by auto
    then show "distinct ys" using "1.IH" [of c] by (simp add: distinct_map)
  next
    fix ys zs
    assume "ys \<in> set (map ?f (first_occ (heads ws)))"
      "zs \<in> set (map ?f (first_occ (heads ws)))" "ys \<noteq> zs"
    then obtain c d where "ys = ?f c" "zs = ?f d" "c \<noteq> d" by auto
    then show "set ys \<inter> set zs = {}" by auto
  qed
  moreover have "[] \<notin> set (concat (map ?f (first_occ (heads ws))))" by auto
  ultimately show ?case
    by (subst preorder_words.simps) simp
qed

lemma insert_chars_twice: "insert_chars w (insert_chars w t) = insert_chars w t"
proof (induction w t rule: insert_chars.induct)
  case (1 cs e)
  show ?case by simp
next
  case (2 c w cs e)
  then show ?case by (simp add: AList.update_conv')
qed

text \<open>
  For a prefix that is already in lower case, every inserted name below it is returned
  in lowercased form.
\<close>

lemma search_lowercase_prefix:
  assumes "lower p = p" and "n \<in> set names" and "prefix p (lower n)"
  shows "lower n \<in> set (search (trie_of names) p)"
proof -
  from assms(2,3) have "drop (length p) (lower n) \<in> set (suffixes_after p (map lower names))"
    by (auto simp: suffixes_after_def)
  then have "p @ drop (length p) (lower n) \<in> set (search (trie_of names) p)"
    by (simp add: search_history assms(1) set_preorder_words)
  moreover from assms(3) have "p @ drop (length p) (lower n) = lower n"
    by (auto simp: prefix_def)
  ultimately show ?thesis by simp
qed

section \<open>Claims about the prefix index\<close>

text \<open>
  C1. The claim is that \<open>Trie.search(P)\<close> returns every inserted name below the prefix
  in lowercased form, also for a prefix with uppercase characters. \<open>Trie.search\<close>
  lowercases the prefix for the walk down only and rebuilds each word from the prefix
  as it was given: after inserting \<open>alice\<close>, the search for \<open>AL\<close> returns \<open>ALice\<close>,
  and the lowercased name \<open>alice\<close> is not in the result.
\<close>

theorem search_keeps_prefix_case:
  "search (insert_trie Trie_init ''alice'') ''AL'' = [''ALice''] \<and>
   ''alice'' \<notin> set (search (insert_trie Trie_init ''alice'') ''AL'')"
  by code_simp

text \<open>
  C5. \<open>Trie.insert\<close> is idempotent: in every trie, inserting a name a second time gives
  the same search result for every prefix as inserting it once (the second insertion
  leaves the trie as it is).
\<close>

theorem insert_idempotent:
  "search (insert_trie (insert_trie t name) name) p = search (insert_trie t name) p"
  by (simp add: insert_trie_def insert_chars_twice)

theorem insert_idempotent_witness:
  "search (insert_trie (insert_trie (insert_trie Trie_init ''Al'') ''Alice'') ''Alice'') ''a''
     = [''al'', ''alice'']"
proof -
  have "search (insert_trie (insert_trie Trie_init ''Al'') ''Alice'') ''a'' = [''al'', ''alice'']"
    by code_simp
  with insert_idempotent [of "insert_trie Trie_init ''Al''" "''Alice''" "''a''"]
  show ?thesis by simp
qed

text \<open>
  C2. After any history of insertions, the search for the empty prefix returns exactly
  the set of the inserted names in lowercased form (each once), and the search for a
  prefix that is not a case-insensitive prefix of any inserted name returns the empty
  list.
\<close>

theorem search_empty_prefix_and_miss:
  "set (search (trie_of names) []) = lower ` set names \<and>
   distinct (search (trie_of names) []) \<and>
   ((\<forall>n \<in> set names. \<not> prefix (lower p) (lower n)) \<longrightarrow> search (trie_of names) p = [])"
proof (intro conjI impI)
  have all: "search (trie_of names) [] = preorder_words (map lower names)"
    by (simp add: search_history lower_def suffixes_after_Nil map_append_Nil)
  show "set (search (trie_of names) []) = lower ` set names"
    by (simp add: all set_preorder_words)
  show "distinct (search (trie_of names) [])"
    by (simp add: all distinct_preorder_words)
next
  assume "\<forall>n \<in> set names. \<not> prefix (lower p) (lower n)"
  then have "suffixes_after (lower p) (map lower names) = []"
    by (intro suffixes_after_none) simp
  then show "search (trie_of names) p = []"
    by (simp add: search_history preorder_words_Nil)
qed

theorem search_empty_prefix_and_miss_witness:
  "\<not> prefix (lower ''z'') (lower ''Alice'') \<and>
   \<not> prefix (lower ''z'') (lower ''Alicia'') \<and>
   \<not> prefix (lower ''z'') (lower ''Bob'') \<and>
   search (trie_of [''Alice'', ''Alicia'', ''Bob'']) ''z'' = [] \<and>
   set (search (trie_of [''Alice'', ''Alicia'', ''Bob'']) []) = {''alice'', ''alicia'', ''bob''}"
proof -
  have miss: "\<not> prefix (lower ''z'') (lower ''Alice'')"
    "\<not> prefix (lower ''z'') (lower ''Alicia'')"
    "\<not> prefix (lower ''z'') (lower ''Bob'')"
    by code_simp+
  have low: "lower ` set [''Alice'', ''Alicia'', ''Bob''] = {''alice'', ''alicia'', ''bob''}"
    by code_simp
  from search_empty_prefix_and_miss [of "[''Alice'', ''Alicia'', ''Bob'']" "''z''"] miss low
  show ?thesis by simp
qed

text \<open>
  C4. The result of \<open>Trie.search\<close> is a function of the insertion history: it is the
  pre-order list \<open>preorder_words\<close> of the inserted words below the prefix, where the
  word ending at a node comes before the words below its children and the children are
  taken in the order of their creation; an insertion keeps the order of the children of
  a node and puts a new child last.
\<close>

theorem search_order_is_preorder_by_creation:
  "search (trie_of names) p =
     map ((@) p) (preorder_words (suffixes_after (lower p) (map lower names))) \<and>
   map fst (children (insert_chars (c # w) node)) =
     (if c \<in> set (map fst (children node)) then map fst (children node)
      else map fst (children node) @ [c])"
  by (cases node) (simp add: search_history update_keys)

theorem search_order_is_preorder_by_creation_witness:
  "search (trie_of [''bob'', ''Alice'', ''al'', ''Bo'']) [] = [''bo'', ''bob'', ''al'', ''alice''] \<and>
   map ((@) []) (preorder_words (suffixes_after (lower []) (map lower [''bob'', ''Alice'', ''al'', ''Bo''])))
     = [''bo'', ''bob'', ''al'', ''alice'']"
proof -
  have "search (trie_of [''bob'', ''Alice'', ''al'', ''Bo'']) [] = [''bo'', ''bob'', ''al'', ''alice'']"
    by code_simp
  with search_order_is_preorder_by_creation [of "[''bob'', ''Alice'', ''al'', ''Bo'']" "[]"]
  show ?thesis by simp
qed

section \<open>Claims about the handlers\<close>

lemma result_contacts_apply:
  "result_contacts cts results k = (if k \<in> set results then cts (lower k) else None)"
  by (induction results rule: rev_induct) (auto simp: result_contacts_def split: option.splits)

text \<open>
  C3. After a contact is deleted, the search endpoint returns no entry for it, for any
  query: every name in the response has its lowercased form among the keys of the
  store, and the deleted key is not one of them. The trie itself is left as it was by
  the deletion, so \<open>Trie.search\<close> alone still returns the deleted name.
\<close>

theorem deleted_contact_not_in_search:
  assumes "delete_contact name s = (s', r)"
    and "search_contact query s' = (Contacts m, code)"
  shows "trie s' = trie s \<and> m (lower name) = None \<and>
         (\<forall>k \<in> dom m. lower k \<in> dom (contacts s') \<and> lower k \<noteq> lower name)"
proof -
  have gone: "contacts s' (lower name) = None" and same: "trie s' = trie s"
    using assms(1) by (auto simp: delete_contact_def save_data_def Let_def split: if_splits)
  have m: "m = result_contacts (contacts s')
                 (search (trie s') (lower (case query of None \<Rightarrow> [] | Some q \<Rightarrow> q)))"
    using assms(2) by (simp add: search_contact_def Let_def)
  show ?thesis
    using gone same by (auto simp: m result_contacts_apply lower_idem split: if_splits)
qed


theorem deleted_contact_not_in_search_witness:
  "snd (delete_contact ''Alice'' alice_state) = (Message ''Contact deleted successfully'', 200) \<and>
   search (trie (fst (delete_contact ''Alice'' alice_state))) ''al'' = [''alice''] \<and>
   result_contacts (contacts (fst (delete_contact ''Alice'' alice_state)))
     (search (trie (fst (delete_contact ''Alice'' alice_state))) (lower ''al'')) ''alice'' = None"
proof -
  let ?d = "delete_contact ''Alice'' alice_state"
  have d: "?d = (fst ?d, snd ?d)"
    by simp
  have sc: "search_contact (Some ''al'') (fst ?d) =
              (Contacts (result_contacts (contacts (fst ?d)) (search (trie (fst ?d)) (lower ''al''))), 200)"
    by (simp add: search_contact_def Let_def)
  have key: "lower ''Alice'' = ''alice''"
    by code_simp
  have "lower ''Alice'' \<in> dom (contacts alice_state)"
    by code_simp
  then have ok: "snd ?d = (Message ''Contact deleted successfully'', 200)"
    by (simp add: delete_contact_def Let_def)
  have still: "search (trie (fst ?d)) ''al'' = [''alice'']"
    by code_simp
  from deleted_contact_not_in_search [OF d sc]
  have "result_contacts (contacts (fst ?d)) (search (trie (fst ?d)) (lower ''al''))
          (lower ''Alice'') = None"
    by blast
  then have "result_contacts (contacts (fst ?d)) (search (trie (fst ?d)) (lower ''al''))
          ''alice'' = None"
    by (simp only: key)
  with ok still show ?thesis
    by blast
qed

lemma update_contact_invalid:
  assumes "(truthy (upd_phone data) \<and> \<not> validate_phone (the (upd_phone data))) \<or>
           (truthy (upd_email data) \<and> \<not> validate_email (the (upd_email data)))"
  shows "update_contact name data s =
           (s, (case contacts s (lower name) of
                  None \<Rightarrow> (Error ''Contact not found'', 404)
                | Some c \<Rightarrow>
                    if truthy (upd_phone data) \<and> \<not> validate_phone (the (upd_phone data))
                    then (Error ''Invalid phone number format'', 400)
                    else (Error ''Invalid email format'', 400)))"
  using assms by (auto simp: update_contact_def Let_def split: option.splits)

lemma update_contact_valid:
  assumes "contacts s (lower name) = Some c"
    and "\<not> (truthy (upd_phone data) \<and> \<not> validate_phone (the (upd_phone data)))"
    and "\<not> (truthy (upd_email data) \<and> \<not> validate_email (the (upd_email data)))"
  shows "update_contact name data s =
           (save_data (s\<lparr>contacts := (contacts s)(lower name \<mapsto>
              \<lparr>phone = (if truthy (upd_phone data) then the (upd_phone data) else phone c),
               email = (if truthy (upd_email data) then the (upd_email data) else email c),
               address = (if truthy (upd_address data) then the (upd_address data) else address c),
               group_c = (if truthy (upd_group data) then the (upd_group data) else group_c c),
               favorite = (case upd_favorite data of None \<Rightarrow> favorite c | Some fav \<Rightarrow> fav)\<rparr>)\<rparr>),
            (Message ''Contact updated successfully'', 200))"
  using assms by (cases c) (auto simp: update_contact_def Let_def split: option.splits)

text \<open>
  C6. An update whose phone or email is given, non-empty and malformed changes nothing:
  the state after the request is the state before it, and for a contact that is in
  the store the response is the validation error 400.
\<close>

theorem update_invalid_applies_nothing:
  assumes "(truthy (upd_phone data) \<and> \<not> validate_phone (the (upd_phone data))) \<or>
           (truthy (upd_email data) \<and> \<not> validate_email (the (upd_email data)))"
  shows "fst (update_contact name data s) = s \<and>
         (lower name \<in> dom (contacts s) \<longrightarrow> snd (snd (update_contact name data s)) = 400)"
  using assms by (auto simp: update_contact_invalid)

theorem update_invalid_applies_nothing_witness:
  "contacts alice_state (lower ''ALICE'') =
     Some \<lparr>phone = ''1234567890'', email = [], address = [], group_c = [], favorite = True\<rparr> \<and>
   fst (update_contact ''ALICE''
          \<lparr>upd_phone = Some ''5550002222'', upd_email = Some ''not-an-email'',
           upd_address = Some ''1 Main St'', upd_group = None, upd_favorite = Some False\<rparr>
          alice_state) = alice_state \<and>
   snd (snd (update_contact ''ALICE''
          \<lparr>upd_phone = Some ''5550002222'', upd_email = Some ''not-an-email'',
           upd_address = Some ''1 Main St'', upd_group = None, upd_favorite = Some False\<rparr>
          alice_state)) = 400"
proof -
  let ?data = "\<lparr>upd_phone = Some ''5550002222'', upd_email = Some ''not-an-email'',
           upd_address = Some ''1 Main St'', upd_group = None, upd_favorite = Some False\<rparr>"
  have c: "contacts alice_state (lower ''ALICE'') =
     Some \<lparr>phone = ''1234567890'', email = [], address = [], group_c = [], favorite = True\<rparr>"
    by code_simp
  have bad: "(truthy (upd_phone ?data) \<and> \<not> validate_phone (the (upd_phone ?data))) \<or>
         (truthy (upd_email ?data) \<and> \<not> validate_email (the (upd_email ?data)))"
    by code_simp
  from update_invalid_applies_nothing [OF bad, of "''ALICE''" alice_state] c show ?thesis
    by auto
qed

lemma neighbors_add_neighbor:
  "neighbors (add_neighbor k v rel) j = (if j = k then Set.insert v (neighbors rel k) else neighbors rel j)"
  by (simp add: neighbors_def add_neighbor_def)

lemma add_neighbor_again:
  "v \<in> neighbors rel k \<Longrightarrow> rel k \<noteq> None \<Longrightarrow> add_neighbor k v rel = rel"
  by (auto simp: neighbors_def add_neighbor_def fun_eq_iff insert_absorb)

lemma add_neighbor_defined: "add_neighbor k v rel k \<noteq> None"
  by (simp add: add_neighbor_def)

lemma add_neighbor_keeps: "rel j \<noteq> None \<Longrightarrow> add_neighbor k v rel j \<noteq> None"
  by (simp add: add_neighbor_def)

lemma add_both_again:
  "add_neighbor b a (add_neighbor a b (add_neighbor b a (add_neighbor a b rel))) =
   add_neighbor b a (add_neighbor a b rel)"
proof -
  let ?r = "add_neighbor b a (add_neighbor a b rel)"
  have "add_neighbor a b ?r = ?r"
    by (intro add_neighbor_again add_neighbor_keeps add_neighbor_defined)
       (simp add: neighbors_add_neighbor)
  moreover have "add_neighbor b a ?r = ?r"
    by (intro add_neighbor_again add_neighbor_defined) (simp add: neighbors_add_neighbor)
  ultimately show ?thesis by simp
qed

lemma symmetric_add_both:
  "symmetric_graph rel \<Longrightarrow> symmetric_graph (add_neighbor b a (add_neighbor a b rel))"
  unfolding symmetric_graph_def by (auto simp: neighbors_add_neighbor split: if_splits)

text \<open>
  C7. \<open>add_relationship\<close> answers 404 and leaves the state as it is when one of the
  lowercased keys is not in the contact store. When both are, it puts each key into the
  neighbor set of the other and changes no other neighbor set, a second call with the
  same names changes nothing more, and a symmetric graph stays symmetric.
\<close>

theorem add_relationship_edges:
  "((lower name1 \<notin> dom (contacts s) \<or> lower name2 \<notin> dom (contacts s)) \<longrightarrow>
      add_relationship name1 name2 s = (s, (Error ''One or both contacts not found'', 404))) \<and>
   (lower name1 \<in> dom (contacts s) \<and> lower name2 \<in> dom (contacts s) \<longrightarrow>
      snd (snd (add_relationship name1 name2 s)) = 200 \<and>
      lower name2 \<in> neighbors (relationships (fst (add_relationship name1 name2 s))) (lower name1) \<and>
      lower name1 \<in> neighbors (relationships (fst (add_relationship name1 name2 s))) (lower name2) \<and>
      (\<forall>k. neighbors (relationships (fst (add_relationship name1 name2 s))) k =
            neighbors (relationships s) k \<union>
            (if k = lower name1 then {lower name2} else {}) \<union>
            (if k = lower name2 then {lower name1} else {})) \<and>
      fst (add_relationship name1 name2 (fst (add_relationship name1 name2 s))) =
        fst (add_relationship name1 name2 s) \<and>
      (symmetric_graph (relationships s) \<longrightarrow>
         symmetric_graph (relationships (fst (add_relationship name1 name2 s)))))"
proof (intro conjI impI)
  assume "lower name1 \<notin> dom (contacts s) \<or> lower name2 \<notin> dom (contacts s)"
  then show "add_relationship name1 name2 s = (s, (Error ''One or both contacts not found'', 404))"
    by (auto simp: add_relationship_def Let_def)
next
  assume both: "lower name1 \<in> dom (contacts s) \<and> lower name2 \<in> dom (contacts s)"
  let ?s' = "save_data (s\<lparr>relationships :=
               add_neighbor (lower name2) (lower name1)
                 (add_neighbor (lower name1) (lower name2) (relationships s))\<rparr>)"
  have run: "add_relationship name1 name2 s =
               (?s', (Message (''Relationship added between '' @ name1 @ '' and '' @ name2), 200))"
    using both by (simp add: add_relationship_def Let_def)
  have rel: "relationships ?s' =
               add_neighbor (lower name2) (lower name1)
                 (add_neighbor (lower name1) (lower name2) (relationships s))"
    by (simp add: save_data_def)
  have both': "lower name1 \<in> dom (contacts ?s') \<and> lower name2 \<in> dom (contacts ?s')"
    using both by (simp add: save_data_def)
  show "snd (snd (add_relationship name1 name2 s)) = 200"
    by (simp add: run)
  show "lower name2 \<in> neighbors (relationships (fst (add_relationship name1 name2 s))) (lower name1)"
    by (simp add: run rel neighbors_add_neighbor)
  show "lower name1 \<in> neighbors (relationships (fst (add_relationship name1 name2 s))) (lower name2)"
    by (simp add: run rel neighbors_add_neighbor)
  show "\<forall>k. neighbors (relationships (fst (add_relationship name1 name2 s))) k =
            neighbors (relationships s) k \<union>
            (if k = lower name1 then {lower name2} else {}) \<union>
            (if k = lower name2 then {lower name1} else {})"
    by (auto simp: run rel neighbors_add_neighbor)
  show "fst (add_relationship name1 name2 (fst (add_relationship name1 name2 s))) =
        fst (add_relationship name1 name2 s)"
    using both' by (simp add: run) (simp add: add_relationship_def Let_def save_data_def add_both_again)
  show "symmetric_graph (relationships (fst (add_relationship name1 name2 s)))"
    if "symmetric_graph (relationships s)"
    using that by (simp add: run rel symmetric_add_both)
qed


lemma relationships_add_contact: "relationships (fst (add_contact data s)) = relationships s"
  by (simp add: add_contact_def save_data_def)

theorem add_relationship_edges_witness:
  "lower ''bob'' \<notin> dom (contacts alice_state) \<and>
   add_relationship ''alice'' ''bob'' alice_state =
     (alice_state, (Error ''One or both contacts not found'', 404)) \<and>
   lower ''Alice'' \<in> dom (contacts (fst (add_contact bob_data alice_state))) \<and>
   lower ''BOB'' \<in> dom (contacts (fst (add_contact bob_data alice_state))) \<and>
   symmetric_graph (relationships (fst (add_contact bob_data alice_state))) \<and>
   ''bob'' \<in> neighbors (relationships
       (fst (add_relationship ''Alice'' ''BOB'' (fst (add_contact bob_data alice_state))))) ''alice'' \<and>
   ''alice'' \<in> neighbors (relationships
       (fst (add_relationship ''Alice'' ''BOB'' (fst (add_contact bob_data alice_state))))) ''bob'' \<and>
   symmetric_graph (relationships
       (fst (add_relationship ''Alice'' ''BOB'' (fst (add_contact bob_data alice_state)))))"
proof -
  let ?s = "fst (add_contact bob_data alice_state)"
  have no_bob: "lower ''bob'' \<notin> dom (contacts alice_state)"
    by code_simp
  have both: "lower ''Alice'' \<in> dom (contacts ?s) \<and> lower ''BOB'' \<in> dom (contacts ?s)"
    by code_simp
  have keys: "lower ''Alice'' = ''alice''" "lower ''BOB'' = ''bob''"
    by code_simp+
  have "relationships ?s = Map.empty"
    by (simp add: relationships_add_contact alice_state_def init_state_def)
  then have sym: "symmetric_graph (relationships ?s)"
    by (simp add: symmetric_graph_def neighbors_def)
  from add_relationship_edges [of "''alice''" alice_state "''bob''"] no_bob
  have missing: "add_relationship ''alice'' ''bob'' alice_state =
     (alice_state, (Error ''One or both contacts not found'', 404))"
    by blast
  from add_relationship_edges [of "''Alice''" ?s "''BOB''"] both sym
  have "lower ''BOB'' \<in> neighbors (relationships (fst (add_relationship ''Alice'' ''BOB'' ?s))) (lower ''Alice'')"
    and "lower ''Alice'' \<in> neighbors (relationships (fst (add_relationship ''Alice'' ''BOB'' ?s))) (lower ''BOB'')"
    and "symmetric_graph (relationships (fst (add_relationship ''Alice'' ''BOB'' ?s)))"
    by blast+
  then have "''bob'' \<in> neighbors (relationships (fst (add_relationship ''Alice'' ''BOB'' ?s))) ''alice''"
    and "''alice'' \<in> neighbors (relationships (fst (add_relationship ''Alice'' ''BOB'' ?s))) ''bob''"
    and "symmetric_graph (relationships (fst (add_relationship ''Alice'' ''BOB'' ?s)))"
    by (simp_all only: keys)
  with no_bob missing both sym show ?thesis
    by blast
qed

text \<open>
  C8. In an update of an existing contact, a string field that is absent or empty in the
  request keeps its stored value (in particular an empty phone leaves the phone as it
  is), an absent \<open>favorite\<close> keeps the flag, and a successful update sets the
  non-empty string fields to the given values. The other contacts, the trie, the
  relationship graph and the call log are not touched.
\<close>

theorem update_changes_only_given_fields:
  assumes "contacts s (lower name) = Some c"
  shows
    "(\<exists>c'. contacts (fst (update_contact name data s)) (lower name) = Some c' \<and>
           (\<not> truthy (upd_phone data) \<longrightarrow> phone c' = phone c) \<and>
           (\<not> truthy (upd_email data) \<longrightarrow> email c' = email c) \<and>
           (\<not> truthy (upd_address data) \<longrightarrow> address c' = address c) \<and>
           (\<not> truthy (upd_group data) \<longrightarrow> group_c c' = group_c c) \<and>
           (upd_favorite data = None \<longrightarrow> favorite c' = favorite c) \<and>
           (snd (snd (update_contact name data s)) = 200 \<longrightarrow>
              (truthy (upd_phone data) \<longrightarrow> phone c' = the (upd_phone data)) \<and>
              (truthy (upd_email data) \<longrightarrow> email c' = the (upd_email data)) \<and>
              (truthy (upd_address data) \<longrightarrow> address c' = the (upd_address data)) \<and>
              (truthy (upd_group data) \<longrightarrow> group_c c' = the (upd_group data)))) \<and>
     (\<forall>k. k \<noteq> lower name \<longrightarrow> contacts (fst (update_contact name data s)) k = contacts s k) \<and>
     trie (fst (update_contact name data s)) = trie s \<and>
     relationships (fst (update_contact name data s)) = relationships s \<and>
     call_log (fst (update_contact name data s)) = call_log s"
proof (cases "(truthy (upd_phone data) \<and> \<not> validate_phone (the (upd_phone data))) \<or>
              (truthy (upd_email data) \<and> \<not> validate_email (the (upd_email data)))")
  case True
  then show ?thesis
    using assms by (simp add: update_contact_invalid)
next
  case False
  then have good: "\<not> (truthy (upd_phone data) \<and> \<not> validate_phone (the (upd_phone data)))"
    "\<not> (truthy (upd_email data) \<and> \<not> validate_email (the (upd_email data)))"
    by blast+
  show ?thesis
    by (simp add: update_contact_valid [OF assms good] save_data_def)
qed

theorem update_changes_only_given_fields_witness:
  "contacts alice_state (lower ''alice'') =
     Some \<lparr>phone = ''1234567890'', email = [], address = [], group_c = [], favorite = True\<rparr> \<and>
   (\<exists>c'. contacts (fst (update_contact ''alice''
              \<lparr>upd_phone = Some [], upd_email = None, upd_address = Some ''1 Main St'',
               upd_group = None, upd_favorite = None\<rparr> alice_state)) (lower ''alice'') = Some c' \<and>
          phone c' = ''1234567890'' \<and> email c' = [] \<and> address c' = ''1 Main St'' \<and>
          group_c c' = [] \<and> favorite c' = True) \<and>
   snd (snd (update_contact ''alice''
              \<lparr>upd_phone = Some [], upd_email = None, upd_address = Some ''1 Main St'',
               upd_group = None, upd_favorite = None\<rparr> alice_state)) = 200"
proof -
  let ?data = "\<lparr>upd_phone = Some [], upd_email = None, upd_address = Some ''1 Main St'',
               upd_group = None, upd_favorite = None\<rparr>"
  have c: "contacts alice_state (lower ''alice'') =
     Some \<lparr>phone = ''1234567890'', email = [], address = [], group_c = [], favorite = True\<rparr>"
    by code_simp
  have ok: "snd (snd (update_contact ''alice'' ?data alice_state)) = 200"
    by (simp add: update_contact_valid [OF c] truthy_def)
  from update_changes_only_given_fields [OF c, of ?data] ok
  have "\<exists>c'. contacts (fst (update_contact ''alice'' ?data alice_state)) (lower ''alice'') = Some c' \<and>
          phone c' = ''1234567890'' \<and> email c' = [] \<and> address c' = ''1 Main St'' \<and>
          group_c c' = [] \<and> favorite c' = True"
    by (auto simp: truthy_def)
  with c ok show ?thesis
    by blast
qed

text \<open>
  C9. \<open>favorite\<close> is applied whenever it is given, also when it is \<open>False\<close>, while
  an empty string given for phone, email, address or group leaves that field as it is.
\<close>

theorem favorite_false_is_applied:
  assumes "contacts s (lower name) = Some c"
    and "upd_favorite data = Some fav"
    and "\<not> (truthy (upd_phone data) \<and> \<not> validate_phone (the (upd_phone data)))"
    and "\<not> (truthy (upd_email data) \<and> \<not> validate_email (the (upd_email data)))"
  shows "\<exists>c'. contacts (fst (update_contact name data s)) (lower name) = Some c' \<and>
           favorite c' = fav \<and>
           (upd_phone data = Some [] \<longrightarrow> phone c' = phone c) \<and>
           (upd_email data = Some [] \<longrightarrow> email c' = email c) \<and>
           (upd_address data = Some [] \<longrightarrow> address c' = address c) \<and>
           (upd_group data = Some [] \<longrightarrow> group_c c' = group_c c)"
  by (simp add: update_contact_valid [OF assms(1) assms(3) assms(4)] save_data_def assms(2) truthy_def)

theorem favorite_false_is_applied_witness:
  "contacts alice_state (lower ''alice'') =
     Some \<lparr>phone = ''1234567890'', email = [], address = [], group_c = [], favorite = True\<rparr> \<and>
   contacts (fst (update_contact ''alice''
              \<lparr>upd_phone = Some [], upd_email = Some [], upd_address = Some [],
               upd_group = Some [], upd_favorite = Some False\<rparr> alice_state)) (lower ''alice'') =
     Some \<lparr>phone = ''1234567890'', email = [], address = [], group_c = [], favorite = False\<rparr>"
proof -
  let ?data = "\<lparr>upd_phone = Some [], upd_email = Some [], upd_address = Some [],
               upd_group = Some [], upd_favorite = Some False\<rparr>"
  have c: "contacts alice_state (lower ''alice'') =
     Some \<lparr>phone = ''1234567890'', email = [], address = [], group_c = [], favorite = True\<rparr>"
    by code_simp
  have fav: "upd_favorite ?data = Some False"
    by simp
  have p: "\<not> (truthy (upd_phone ?data) \<and> \<not> validate_phone (the (upd_phone ?data)))"
    and e: "\<not> (truthy (upd_email ?data) \<and> \<not> validate_email (the (upd_email ?data)))"
    by (simp_all add: truthy_def)
  from favorite_false_is_applied [OF c fav p e] c show ?thesis
    by auto
qed

text \<open>
  C10. Deleting a contact removes its entry from the contact store and nothing else:
  the relationship graph, the call log and the trie are as before, so the graph dump and
  the call-log dump are the same as before the deletion and can still show the deleted
  contact.
\<close>

theorem delete_keeps_graph_and_call_log:
  "contacts (fst (delete_contact name s)) = (contacts s)(lower name := None) \<and>
   relationships (fst (delete_contact name s)) = relationships s \<and>
   call_log (fst (delete_contact name s)) = call_log s \<and>
   trie (fst (delete_contact name s)) = trie s \<and>
   get_graph (fst (delete_contact name s)) = get_graph s \<and>
   get_call_log (fst (delete_contact name s)) = get_call_log s"
  by (auto simp: delete_contact_def save_data_def get_graph_def get_call_log_def Let_def)

theorem delete_keeps_graph_and_call_log_witness:
  "contacts (fst (delete_contact ''ALICE'' alice_bob_state)) ''alice'' = None \<and>
   get_graph (fst (delete_contact ''ALICE'' alice_bob_state)) =
     (Graph (relationships alice_bob_state), 200) \<and>
   relationships alice_bob_state ''alice'' = Some {''bob''} \<and>
   relationships alice_bob_state ''bob'' = Some {''alice''} \<and>
   get_call_log (fst (delete_contact ''ALICE'' alice_bob_state)) =
     (CallLog (call_log alice_bob_state), 200) \<and>
   call_log alice_bob_state ''alice'' = Some [''2024-01-01 10:00:00'']"
proof -
  have key: "lower ''ALICE'' = ''alice''"
    by code_simp
  have g1: "relationships alice_bob_state ''alice'' = Some {''bob''}"
    and g2: "relationships alice_bob_state ''bob'' = Some {''alice''}"
    and l: "call_log alice_bob_state ''alice'' = Some [''2024-01-01 10:00:00'']"
    by code_simp+
  from delete_keeps_graph_and_call_log [of "''ALICE''" alice_bob_state] key g1 g2 l
  show ?thesis
    by (simp add: get_graph_def get_call_log_def)
qed

end
